theory Spec2Isabelle
  imports Main "HOL-Library.Sublist"
begin

section \<open>Strings\<close>

text \<open>
  A Go \<^verbatim>\<open>string\<close> is a sequence of bytes, and so is a \<^typ>\<open>string\<close> here (\<^typ>\<open>char\<close> has
  eight bits). The functions of package \<^verbatim>\<open>strings\<close> that \<^verbatim>\<open>main.go\<close> calls are written
  out on bytes; where Go decodes UTF-8 (\<^verbatim>\<open>TrimSpace\<close>), the encoded forms are listed.
\<close>

definition nl :: char where
  "nl = CHR 0x0A"

definition esc :: char where
  "esc = CHR 0x1B"

text \<open>\<^verbatim>\<open>strings.HasPrefix\<close>: \<^verbatim>\<open>len(s) >= len(prefix) && s[:len(prefix)] == prefix\<close>.\<close>

definition HasPrefix :: "string \<Rightarrow> string \<Rightarrow> bool" where
  "HasPrefix s p \<longleftrightarrow> length p \<le> length s \<and> take (length p) s = p"

text \<open>\<^verbatim>\<open>strings.HasSuffix\<close>: \<^verbatim>\<open>len(s) >= len(suffix) && s[len(s)-len(suffix):] == suffix\<close>.\<close>

definition HasSuffix :: "string \<Rightarrow> string \<Rightarrow> bool" where
  "HasSuffix s p \<longleftrightarrow> length p \<le> length s \<and> drop (length s - length p) s = p"

text \<open>
  \<^verbatim>\<open>strings.Split(s, sep)\<close> for a separator of one byte (the program splits on
  \<^verbatim>\<open>"\n"\<close> only): all the pieces between the separators, so \<^verbatim>\<open>[""]\<close> for the empty string
  and a last empty piece after a final separator.
\<close>

fun Split :: "string \<Rightarrow> char \<Rightarrow> string list" where
  "Split [] sep = [[]]"
| "Split (c # cs) sep =
     (if c = sep then [] # Split cs sep
      else (case Split cs sep of [] \<Rightarrow> [[c]] | a # rest \<Rightarrow> (c # a) # rest))"

text \<open>
  \<^verbatim>\<open>strings.SplitN(s, sep, 2)\<close> for a non-empty separator: the text before the first
  occurrence of \<^verbatim>\<open>sep\<close> and the text after it, or \<^verbatim>\<open>[s]\<close> when \<^verbatim>\<open>sep\<close> does not occur.
\<close>

fun SplitN2 :: "string \<Rightarrow> string \<Rightarrow> string list" where
  "SplitN2 [] sep = [[]]"
| "SplitN2 (c # cs) sep =
     (if HasPrefix (c # cs) sep then [[], drop (length sep) (c # cs)]
      else (case SplitN2 cs sep of
              [a, b] \<Rightarrow> [c # a, b]
            | _ \<Rightarrow> [c # cs]))"

text \<open>
  White space as \<^verbatim>\<open>unicode.IsSpace\<close> has it, each code point in its UTF-8 encoding:
  the six ASCII ones (\<^verbatim>\<open>\t \n \v \f \r\<close> and the blank), U+0085, U+00A0, U+1680,
  U+2000 to U+200A, U+2028, U+2029, U+202F, U+205F and U+3000.
\<close>

definition spaceSeqs :: "string list" where
  "spaceSeqs =
     [[CHR 0x09], [CHR 0x0A], [CHR 0x0B], [CHR 0x0C], [CHR 0x0D], [CHR 0x20],
      [CHR 0xC2, CHR 0x85], [CHR 0xC2, CHR 0xA0],
      [CHR 0xE1, CHR 0x9A, CHR 0x80],
      [CHR 0xE2, CHR 0x80, CHR 0x80], [CHR 0xE2, CHR 0x80, CHR 0x81],
      [CHR 0xE2, CHR 0x80, CHR 0x82], [CHR 0xE2, CHR 0x80, CHR 0x83],
      [CHR 0xE2, CHR 0x80, CHR 0x84], [CHR 0xE2, CHR 0x80, CHR 0x85],
      [CHR 0xE2, CHR 0x80, CHR 0x86], [CHR 0xE2, CHR 0x80, CHR 0x87],
      [CHR 0xE2, CHR 0x80, CHR 0x88], [CHR 0xE2, CHR 0x80, CHR 0x89],
      [CHR 0xE2, CHR 0x80, CHR 0x8A],
      [CHR 0xE2, CHR 0x80, CHR 0xA8], [CHR 0xE2, CHR 0x80, CHR 0xA9],
      [CHR 0xE2, CHR 0x80, CHR 0xAF],
      [CHR 0xE2, CHR 0x81, CHR 0x9F],
      [CHR 0xE3, CHR 0x80, CHR 0x80]]"

text \<open>The white-space character a string starts with, and the one it ends with.\<close>

definition leadingSpace :: "string \<Rightarrow> string option" where
  "leadingSpace s = find (HasPrefix s) spaceSeqs"

definition trailingSpace :: "string \<Rightarrow> string option" where
  "trailingSpace s = find (HasSuffix s) spaceSeqs"

lemma find_Some_holds: "find P xs = Some x \<Longrightarrow> P x \<and> x \<in> set xs"
  by (induction xs) (auto split: if_splits)

lemma spaceSeqs_nonempty: "p \<in> set spaceSeqs \<Longrightarrow> p \<noteq> []"
  by (auto simp: spaceSeqs_def)

lemma leadingSpace_length:
  assumes "leadingSpace s = Some p"
  shows "0 < length p \<and> length p \<le> length s"
proof -
  from assms have "HasPrefix s p" and "p \<in> set spaceSeqs"
    unfolding leadingSpace_def by (auto dest: find_Some_holds)
  then show ?thesis
    using spaceSeqs_nonempty [of p] by (simp add: HasPrefix_def)
qed

lemma trailingSpace_length:
  assumes "trailingSpace s = Some p"
  shows "0 < length p \<and> length p \<le> length s"
proof -
  from assms have "HasSuffix s p" and "p \<in> set spaceSeqs"
    unfolding trailingSpace_def by (auto dest: find_Some_holds)
  then show ?thesis
    using spaceSeqs_nonempty [of p] by (simp add: HasSuffix_def)
qed

text \<open>
  \<^verbatim>\<open>strings.TrimLeftFunc(s, unicode.IsSpace)\<close> and \<^verbatim>\<open>strings.TrimRightFunc(s, unicode.IsSpace)\<close>:
  white-space characters are removed from the one end as long as there is one. A byte
  that is not part of a well-formed white-space character stops the scan (Go decodes it
  to a character that is not white space).
\<close>

function TrimLeft :: "string \<Rightarrow> string" where
  "TrimLeft s =
     (case leadingSpace s of None \<Rightarrow> s | Some p \<Rightarrow> TrimLeft (drop (length p) s))"
  by pat_completeness auto
termination
proof (relation "measure length")
  fix s p
  assume "leadingSpace s = Some p"
  from leadingSpace_length [OF this]
  show "(drop (length p) s, s) \<in> measure length" by (cases p) auto
qed simp

function TrimRight :: "string \<Rightarrow> string" where
  "TrimRight s =
     (case trailingSpace s of None \<Rightarrow> s | Some p \<Rightarrow> TrimRight (take (length s - length p) s))"
  by pat_completeness auto
termination
proof (relation "measure length")
  fix s p
  assume "trailingSpace s = Some p"
  from trailingSpace_length [OF this]
  show "(take (length s - length p) s, s) \<in> measure length" by (cases p) auto
qed simp

declare TrimLeft.simps [simp del] TrimRight.simps [simp del]

text \<open>
  \<^verbatim>\<open>strings.TrimSpace\<close>: its fast path for ASCII and its fallback to
  \<^verbatim>\<open>TrimFunc(s, unicode.IsSpace)\<close> both remove the leading white space, then the
  trailing white space of what is left.
\<close>

definition TrimSpace :: "string \<Rightarrow> string" where
  "TrimSpace s = TrimRight (TrimLeft s)"

section \<open>Branch names\<close>

definition ColorGreen :: string where
  "ColorGreen = esc # ''[32m''"

definition ColorRed :: string where
  "ColorRed = esc # ''[31m''"

definition ColorYellow :: string where
  "ColorYellow = esc # ''[33m''"

definition ColorReset :: string where
  "ColorReset = esc # ''[0m''"

text \<open>
  \<^verbatim>\<open>ansiStripper = regexp.MustCompile("\033[[0-9;]*m")\<close>. The Go string literal turns
  \<^verbatim>\<open>\033\<close> into the escape byte, and the bracket after it, which is not escaped, opens a
  character class: the expression is the escape byte, any number of bytes out of
  \<^verbatim>\<open>[\<close>, \<^verbatim>\<open>0\<close> to \<^verbatim>\<open>9\<close> and \<^verbatim>\<open>;\<close>, and \<^verbatim>\<open>m\<close>.
\<close>

definition ansiParam :: "char \<Rightarrow> bool" where
  "ansiParam c \<longleftrightarrow> c \<in> set ''[0123456789;''"

text \<open>
  A match of the expression at the head of the string, with the text after it. The
  class holds neither \<^verbatim>\<open>m\<close> nor the escape byte, so the greedy star takes the whole run
  and a shorter one never matches.
\<close>

fun ansiMatch :: "string \<Rightarrow> string option" where
  "ansiMatch [] = None"
| "ansiMatch (c # cs) =
     (if c = esc then
        (case dropWhile ansiParam cs of
           [] \<Rightarrow> None
         | d # r \<Rightarrow> if d = CHR ''m'' then Some r else None)
      else None)"

lemma ansiMatch_length: "ansiMatch s = Some r \<Longrightarrow> length r < length s"
proof (cases s)
  case Nil
  then show "ansiMatch s = Some r \<Longrightarrow> length r < length s" by simp
next
  case (Cons c cs)
  assume m: "ansiMatch s = Some r"
  from m Cons have "dropWhile ansiParam cs = CHR ''m'' # r"
    by (auto split: if_splits list.splits)
  then have "length (CHR ''m'' # r) \<le> length cs"
    by (metis length_dropWhile_le)
  with Cons show "length r < length s" by simp
qed

text \<open>
  \<^verbatim>\<open>ansiStripper.ReplaceAllString(s, "")\<close>: the matches are found from left to right,
  each search starting where the match before it ended, and they are left out.
\<close>

function ReplaceAllString :: "string \<Rightarrow> string" where
  "ReplaceAllString [] = []"
| "ReplaceAllString (c # cs) =
     (case ansiMatch (c # cs) of
        Some r \<Rightarrow> ReplaceAllString r
      | None \<Rightarrow> c # ReplaceAllString cs)"
  by pat_completeness auto
termination
proof (relation "measure length")
  fix c cs r
  assume "ansiMatch (c # cs) = Some r"
  from ansiMatch_length [OF this]
  show "(r, c # cs) \<in> measure length" by simp
qed simp_all

definition cleanBranchName :: "string \<Rightarrow> string" where
  "cleanBranchName branchName =
     (let cleaned = ReplaceAllString branchName;
          parts = SplitN2 cleaned '' (''
      in TrimSpace (hd parts))"

definition protectedBranches :: "string list" where
  "protectedBranches = [''main'', ''master'']"

definition isProtectedBranch :: "string \<Rightarrow> bool" where
  "isProtectedBranch branchName =
     (let parts = SplitN2 branchName ''/'';
          cleanBranchName = (if length parts = 2 then parts ! 1 else branchName)
      in list_ex (\<lambda>protected. cleanBranchName = protected) protectedBranches)"

section \<open>The world outside the program\<close>

text \<open>
  The message catalogues (\<^verbatim>\<open>locales/en.json\<close>, \<^verbatim>\<open>locales/ja.json\<close>) are not among the
  sources, so the localizer that \<^verbatim>\<open>main\<close> builds from them is a parameter: one field for
  each message identifier, a function of the template data where the program passes
  some.
\<close>

record localizer =
  ProtectedIndicator :: string
  MergedIndicator :: string
  UnmergedIndicator :: string
  FzfNotFound :: string
  InstallFzf :: string
  ErrorGettingRemoteBranches :: "string \<Rightarrow> string"
  NoRemoteBranches :: string
  DeletionCancelled :: string
  NoBranchesSelected :: string
  ProtectedBranchSkipped :: "string \<Rightarrow> string"
  ConfirmDeletion :: string
  Branch :: string
  Remote :: string
  ErrorDeletingBranch :: "string \<Rightarrow> string \<Rightarrow> string"
  BranchDeletedSuccessfully :: "string \<Rightarrow> string"

text \<open>
  What \<^verbatim>\<open>Cmd.CombinedOutput\<close> returns: the output of the process, and the error (its
  text) when the process failed.
\<close>

type_synonym cmd_result = "string \<times> string option"

text \<open>
  The error of \<^verbatim>\<open>fzfCmd.Run\<close>: an \<^verbatim>\<open>*exec.ExitError\<close> with its exit code, or another
  error; both with their text.
\<close>

datatype run_error = ExitError int string | OtherError string

text \<open>
  The selector: \<^verbatim>\<open>StdinPipe\<close> fails, or the process runs on the lines written to its
  input and leaves its output and the error of \<^verbatim>\<open>Run\<close>.
\<close>

datatype fzf_result = PipeError string | Ran string "run_error option"

text \<open>
  \<^verbatim>\<open>survey.AskOne(confirmPrompt, &confirm)\<close>: the library writes the answer through the
  pointer and returns \<^verbatim>\<open>nil\<close>, or returns the error of the prompt before it writes
  anything.
\<close>

datatype ask_result = Answered bool | PromptError string

text \<open>
  The environment of one run. A command started with \<^verbatim>\<open>CombinedOutput\<close> answers as
  \<open>exec\<close> says, given the commands run before it, so the same command may answer
  differently each time it is run.
\<close>

record env =
  lookPath :: "string option"
  exec :: "string list list \<Rightarrow> string list \<Rightarrow> cmd_result"
  executable :: "string + string"
  fzf :: "string list \<Rightarrow> string list \<Rightarrow> fzf_result"
  askOne :: ask_result

text \<open>What the program writes to standard output, one value for each call.\<close>

datatype print =
    Println string
  | ConfirmHeading string
  | TableRow string string
  | SkippingInvalid string

text \<open>
  \<^verbatim>\<open>ConfirmHeading s\<close> is \<^verbatim>\<open>fmt.Printf("\n%s\n", s)\<close>, \<^verbatim>\<open>TableRow a b\<close> is
  \<^verbatim>\<open>fmt.Printf("%-40s %s\n", a, b)\<close> and \<^verbatim>\<open>SkippingInvalid b\<close> is
  \<^verbatim>\<open>fmt.Printf("Skipping invalid branch format: %s\n", b)\<close>.

  The state of a run: the calls that wrote to standard output, the texts written to
  standard error, and the external commands started, each in order.
\<close>

record state =
  stdout :: "print list"
  stderr :: "string list"
  cmds :: "string list list"

definition initial :: state where
  "initial = \<lparr>stdout = [], stderr = [], cmds = []\<rparr>"

definition put :: "print \<Rightarrow> state \<Rightarrow> state" where
  "put p st = st\<lparr>stdout := stdout st @ [p]\<rparr>"

definition puts :: "print list \<Rightarrow> state \<Rightarrow> state" where
  "puts ps st = st\<lparr>stdout := stdout st @ ps\<rparr>"

definition Fprintf_stderr :: "string \<Rightarrow> state \<Rightarrow> state" where
  "Fprintf_stderr s st = st\<lparr>stderr := stderr st @ [s]\<rparr>"

definition CombinedOutput :: "env \<Rightarrow> string list \<Rightarrow> state \<Rightarrow> cmd_result \<times> state" where
  "CombinedOutput E argv st = (exec E (cmds st) argv, st\<lparr>cmds := cmds st @ [argv]\<rparr>)"

section \<open>Listing and classifying the remote branches\<close>

definition gitBranchRemote :: "string list" where
  "gitBranchRemote = [''git'', ''branch'', ''-r'']"

definition gitBranchMerged :: "string list" where
  "gitBranchMerged = [''git'', ''branch'', ''-r'', ''--merged'', ''HEAD'']"

definition gitPushDelete :: "string \<Rightarrow> string \<Rightarrow> string list" where
  "gitPushDelete remoteName branchName = [''git'', ''push'', remoteName, ''--delete'', branchName]"

definition isMergedToHead :: "env \<Rightarrow> string \<Rightarrow> state \<Rightarrow> bool \<times> state" where
  "isMergedToHead E branch st =
     (case CombinedOutput E gitBranchMerged st of
        ((output, Some err), st1) \<Rightarrow>
          (False, Fprintf_stderr (''Warning: Could not get merged branches: '' @ err @ [nl]) st1)
      | ((output, None), st1) \<Rightarrow>
          (list_ex (\<lambda>mergedBranch. TrimSpace mergedBranch = TrimSpace branch) (Split output nl),
           st1))"

text \<open>\<^verbatim>\<open>fmt.Sprintf("%s%s %s%s", color, trimmedBranch, indicator, ColorReset)\<close>.\<close>

definition fzfItem :: "string \<Rightarrow> string \<Rightarrow> string \<Rightarrow> string" where
  "fzfItem color trimmedBranch indicator = color @ trimmedBranch @ '' '' @ indicator @ ColorReset"

text \<open>
  The loop over \<^verbatim>\<open>allRemoteBranches\<close> that fills \<^verbatim>\<open>fzfItems\<close> (lines 188 to 207). The
  indicators are fetched with \<^verbatim>\<open>MustLocalize\<close>, which panics on a message the catalogue
  lacks; the localizer here has them all.
\<close>

fun fzfItemsLoop ::
  "localizer \<Rightarrow> env \<Rightarrow> string list \<Rightarrow> string list \<Rightarrow> state \<Rightarrow> string list \<times> state" where
  "fzfItemsLoop L E [] fzfItems st = (fzfItems, st)"
| "fzfItemsLoop L E (branch # rest) fzfItems st =
     (let trimmedBranch = TrimSpace branch in
      if trimmedBranch \<noteq> [] \<and> \<not> HasSuffix trimmedBranch ''/HEAD'' then
        if isProtectedBranch trimmedBranch then
          fzfItemsLoop L E rest
            (fzfItems @ [fzfItem ColorYellow trimmedBranch (ProtectedIndicator L)]) st
        else
          (case isMergedToHead E trimmedBranch st of
             (True, st1) \<Rightarrow>
               fzfItemsLoop L E rest
                 (fzfItems @ [fzfItem ColorGreen trimmedBranch (MergedIndicator L)]) st1
           | (False, st1) \<Rightarrow>
               fzfItemsLoop L E rest
                 (fzfItems @ [fzfItem ColorRed trimmedBranch (UnmergedIndicator L)]) st1)
      else fzfItemsLoop L E rest fzfItems st)"

section \<open>Planning and running the deletion\<close>

text \<open>
  The loop over the selected lines (lines 263 to 272): each is cleaned and goes to
  \<^verbatim>\<open>protectedBranchesSelected\<close> or to \<^verbatim>\<open>branchesToDelete\<close>. The result is the pair
  \<^verbatim>\<open>(branchesToDelete, protectedBranchesSelected)\<close>.
\<close>

fun selectionLoop :: "string list \<Rightarrow> string list \<Rightarrow> string list \<Rightarrow> string list \<times> string list" where
  "selectionLoop [] branchesToDelete protectedBranchesSelected =
     (branchesToDelete, protectedBranchesSelected)"
| "selectionLoop (selectedItem # rest) branchesToDelete protectedBranchesSelected =
     (let cleanedBranch = cleanBranchName selectedItem in
      if isProtectedBranch cleanedBranch then
        selectionLoop rest branchesToDelete (protectedBranchesSelected @ [cleanedBranch])
      else
        selectionLoop rest (branchesToDelete @ [cleanedBranch]) protectedBranchesSelected)"

text \<open>One row of the confirmation table (lines 299 to 306).\<close>

definition tableRow :: "string \<Rightarrow> print" where
  "tableRow branch =
     (let parts = SplitN2 branch ''/'' in
      if length parts = 2 then TableRow (parts ! 1) (parts ! 0)
      else TableRow branch ''(unknown)'')"

text \<open>The deletion loop (lines 324 to 350).\<close>

fun deleteLoop :: "localizer \<Rightarrow> env \<Rightarrow> string list \<Rightarrow> state \<Rightarrow> state" where
  "deleteLoop L E [] st = st"
| "deleteLoop L E (branch # rest) st =
     (let parts = SplitN2 branch ''/'' in
      if length parts \<noteq> 2 then deleteLoop L E rest (put (SkippingInvalid branch) st)
      else
        (let remoteName = parts ! 0;
             branchName = parts ! 1
         in case CombinedOutput E (gitPushDelete remoteName branchName) st of
              ((deleteOutput, Some err), st1) \<Rightarrow>
                deleteLoop L E rest
                  (puts [Println (ErrorDeletingBranch L branch err), Println deleteOutput] st1)
            | ((deleteOutput, None), st1) \<Rightarrow>
                deleteLoop L E rest
                  (puts [Println (BranchDeletedSuccessfully L branch), Println deleteOutput] st1)))"

text \<open>
  From the confirmation table to the end of \<^verbatim>\<open>main\<close> (lines 289 to 351), for the
  branches to delete. The result is the final state and the exit status; \<^verbatim>\<open>main\<close>
  returning is status 0. The error that \<^verbatim>\<open>survey.AskOne\<close> returns is dropped by the
  program, and \<^verbatim>\<open>confirm\<close> keeps its zero value \<^verbatim>\<open>false\<close> unless an answer was written.
\<close>

definition confirmAndDelete :: "localizer \<Rightarrow> env \<Rightarrow> string list \<Rightarrow> state \<Rightarrow> state \<times> nat" where
  "confirmAndDelete L E branchesToDelete st =
     (let st1 = puts ([ConfirmHeading (ConfirmDeletion L),
                       TableRow (Branch L) (Remote L),
                       Println (replicate 60 CHR ''-'')]
                      @ map tableRow branchesToDelete
                      @ [Println (replicate 60 CHR ''-'')]) st;
          confirm = (case askOne E of Answered answer \<Rightarrow> answer | PromptError err \<Rightarrow> False)
      in if \<not> confirm then (put (Println (DeletionCancelled L)) st1, 0)
         else (deleteLoop L E branchesToDelete st1, 0))"

text \<open>From the output of the selector to the end of \<^verbatim>\<open>main\<close> (lines 255 to 351).\<close>

definition afterSelection :: "localizer \<Rightarrow> env \<Rightarrow> string \<Rightarrow> state \<Rightarrow> state \<times> nat" where
  "afterSelection L E fzfStdout st =
     (let selectedBranchesStr = TrimSpace fzfStdout in
      if selectedBranchesStr = [] then (put (Println (NoBranchesSelected L)) st, 0)
      else
        (case selectionLoop (Split selectedBranchesStr nl) [] [] of
           (branchesToDelete, protectedBranchesSelected) \<Rightarrow>
             (let st1 = puts (map (\<lambda>protectedBranch. Println (ProtectedBranchSkipped L protectedBranch))
                                protectedBranchesSelected) st
              in if length branchesToDelete = 0 then (put (Println (NoBranchesSelected L)) st1, 0)
                 else confirmAndDelete L E branchesToDelete st1)))"

text \<open>Running the selector on the items (lines 215 to 253), and the rest of \<^verbatim>\<open>main\<close>.\<close>

definition fzfArgs :: "string \<Rightarrow> string list" where
  "fzfArgs executablePath =
     [''fzf'', ''--multi'', ''--ansi'', ''--preview'', executablePath @ '' -get-remote-log {}'']"

definition selectAndDelete :: "localizer \<Rightarrow> env \<Rightarrow> string list \<Rightarrow> state \<Rightarrow> state \<times> nat" where
  "selectAndDelete L E fzfItems st =
     (case executable E of
        Inl err \<Rightarrow> (Fprintf_stderr (''Error getting executable path: '' @ err @ [nl]) st, 1)
      | Inr executablePath \<Rightarrow>
          (case fzf E (fzfArgs executablePath) fzfItems of
             PipeError err \<Rightarrow>
               (Fprintf_stderr (''Error creating stdin pipe for fzf: '' @ err @ [nl]) st, 1)
           | Ran fzfStdout result \<Rightarrow>
               (let st1 = st\<lparr>cmds := cmds st @ [fzfArgs executablePath]\<rparr> in
                case result of
                  Some err \<Rightarrow>
                    (case err of
                       ExitError code text \<Rightarrow>
                         if code = 130 then (put (Println (DeletionCancelled L)) st1, 0)
                         else (Fprintf_stderr (''Error running fzf: '' @ text @ [nl]) st1, 1)
                     | OtherError text \<Rightarrow>
                         (Fprintf_stderr (''Error running fzf: '' @ text @ [nl]) st1, 1))
                | None \<Rightarrow> afterSelection L E fzfStdout st1)))"

text \<open>
  \<^verbatim>\<open>main\<close> from the check for the selector on (lines 167 to 351), with the localizer the
  lines before have chosen. The flags, the choice of the language, the help text and
  the preview request (\<^verbatim>\<open>-get-remote-log\<close>) come before and are not modelled.
\<close>

definition main :: "localizer \<Rightarrow> env \<Rightarrow> state \<times> nat" where
  "main L E =
     (case lookPath E of
        Some err \<Rightarrow> (puts [Println (FzfNotFound L), Println (InstallFzf L)] initial, 1)
      | None \<Rightarrow>
          (case CombinedOutput E gitBranchRemote initial of
             ((output, Some err), st1) \<Rightarrow>
               (put (Println (ErrorGettingRemoteBranches L err)) st1, 1)
           | ((output, None), st1) \<Rightarrow>
               (case fzfItemsLoop L E (Split output nl) [] st1 of
                  (fzfItems, st2) \<Rightarrow>
                    if length fzfItems = 0 then (put (Println (NoRemoteBranches L)) st2, 0)
                    else selectAndDelete L E fzfItems st2)))"

section \<open>Notions for stating the properties\<close>

text \<open>
  The lines the listing loop keeps, trimmed: those that are not blank and do not end in
  \<^verbatim>\<open>/HEAD\<close>.
\<close>

definition candidates :: "string list \<Rightarrow> string list" where
  "candidates allRemoteBranches =
     filter (\<lambda>trimmedBranch. trimmedBranch \<noteq> [] \<and> \<not> HasSuffix trimmedBranch ''/HEAD'')
       (map TrimSpace allRemoteBranches)"

text \<open>
  The branches the deletion loop does not skip, and the command it runs for one of them.
\<close>

definition deletable :: "string list \<Rightarrow> string list" where
  "deletable branches = filter (\<lambda>branch. length (SplitN2 branch ''/'') = 2) branches"

definition deleteCommand :: "string \<Rightarrow> string list" where
  "deleteCommand branch = gitPushDelete (SplitN2 branch ''/'' ! 0) (SplitN2 branch ''/'' ! 1)"



section \<open>Sample runs\<close>

text \<open>
  A localizer and environments to run the model on concrete inputs. The three
  indicators are the ones the README shows; the other texts stand for those of the
  catalogue.
\<close>

definition english :: localizer where
  "english =
     \<lparr>ProtectedIndicator = ''(protected)'',
      MergedIndicator = ''(merged)'',
      UnmergedIndicator = ''(unmerged)'',
      FzfNotFound = ''fzf is not installed'',
      InstallFzf = ''please install fzf'',
      ErrorGettingRemoteBranches = (\<lambda>err. ''error getting remote branches: '' @ err),
      NoRemoteBranches = ''no remote branches found'',
      DeletionCancelled = ''deletion cancelled'',
      NoBranchesSelected = ''no branches selected'',
      ProtectedBranchSkipped = (\<lambda>branch. ''skipping protected branch '' @ branch),
      ConfirmDeletion = ''the following branches will be deleted'',
      Branch = ''Branch'',
      Remote = ''Remote'',
      ErrorDeletingBranch = (\<lambda>branch err. ''error deleting '' @ branch @ '': '' @ err),
      BranchDeletedSuccessfully = (\<lambda>branch. ''deleted '' @ branch)\<rparr>"

text \<open>
  A stand-in for git: the listing, the answer of the merged query, and the answer of
  the n-th \<^verbatim>\<open>git push\<close> of the run.
\<close>

definition pushesBefore :: "string list list \<Rightarrow> nat" where
  "pushesBefore history = length (filter (\<lambda>argv. take 2 argv = [''git'', ''push'']) history)"

definition gitStub ::
  "string \<Rightarrow> cmd_result \<Rightarrow> (nat \<Rightarrow> cmd_result) \<Rightarrow> string list list \<Rightarrow> string list \<Rightarrow> cmd_result" where
  "gitStub listing merged delete history argv =
     (if argv = gitBranchRemote then (listing, None)
      else if argv = gitBranchMerged then merged
      else delete (pushesBefore history))"

definition deleteOk :: "nat \<Rightarrow> cmd_result" where
  "deleteOk n = (''deleted'', None)"

definition deleteFirstFails :: "nat \<Rightarrow> cmd_result" where
  "deleteFirstFails n = (if n = 0 then (''remote rejected'', Some ''exit status 1'') else (''deleted'', None))"


text \<open>A selector that returns every line it was given, and one the user leaves with Esc.\<close>

definition selectAll :: "string list \<Rightarrow> string list \<Rightarrow> fzf_result" where
  "selectAll argv items = Ran (concat (map (\<lambda>item. item @ [nl]) items)) None"

definition selectNone :: "string list \<Rightarrow> string list \<Rightarrow> fzf_result" where
  "selectNone argv items = Ran [] (Some (ExitError 130 ''exit status 130''))"

definition sampleEnv ::
  "(string list list \<Rightarrow> string list \<Rightarrow> cmd_result) \<Rightarrow> (string list \<Rightarrow> string list \<Rightarrow> fzf_result)
   \<Rightarrow> ask_result \<Rightarrow> env" where
  "sampleEnv git selector answer =
     \<lparr>lookPath = None, exec = git,
      executable = Inr ''/usr/local/bin/git-remote-branch-manager'',
      fzf = selector, askOne = answer\<rparr>"

section \<open>Facts about the string functions\<close>

lemma HasPrefix_iff: "HasPrefix s p \<longleftrightarrow> prefix p s"
proof
  assume "HasPrefix s p"
  then have "s = p @ drop (length p) s"
    unfolding HasPrefix_def by (metis append_take_drop_id)
  then show "prefix p s" by (rule prefixI)
next
  assume "prefix p s"
  then show "HasPrefix s p"
    by (auto simp: HasPrefix_def prefix_def)
qed

lemma HasSuffix_iff: "HasSuffix s p \<longleftrightarrow> suffix p s"
proof
  assume "HasSuffix s p"
  then have "s = take (length s - length p) s @ p"
    unfolding HasSuffix_def by (metis append_take_drop_id)
  then show "suffix p s" by (rule suffixI)
next
  assume "suffix p s"
  then show "HasSuffix s p"
    by (auto simp: HasSuffix_def suffix_def)
qed

lemma SplitN2_char:
  "SplitN2 b [c] =
     (if c \<in> set b then [takeWhile (\<lambda>x. x \<noteq> c) b, tl (dropWhile (\<lambda>x. x \<noteq> c) b)] else [b])"
  by (induction b) (auto simp: HasPrefix_def)

lemma SplitN2_shape: "SplitN2 s sep = [s] \<or> (\<exists>a b. SplitN2 s sep = [a, b])"
  by (induction s) (auto split: list.splits)

lemma hd_SplitN2_Cons:
  "hd (SplitN2 (c # cs) sep) = (if HasPrefix (c # cs) sep then [] else c # hd (SplitN2 cs sep))"
  using SplitN2_shape [of cs sep] by (auto split: list.splits)

lemma hd_SplitN2_prefix: "prefix (hd (SplitN2 s sep)) s"
proof (induction s)
  case Nil
  then show ?case by simp
next
  case (Cons c cs)
  then show ?case by (simp only: hd_SplitN2_Cons) auto
qed

lemma hd_SplitN2_no_sep:
  assumes "sep \<noteq> []"
  shows "\<not> sublist sep (hd (SplitN2 s sep))"
proof (induction s)
  case Nil
  with assms show ?case by simp
next
  case (Cons c cs)
  show ?case
  proof (cases "HasPrefix (c # cs) sep")
    case True
    with assms show ?thesis by (simp only: hd_SplitN2_Cons) simp
  next
    case False
    have "\<not> prefix sep (c # hd (SplitN2 cs sep))"
    proof
      assume "prefix sep (c # hd (SplitN2 cs sep))"
      moreover have "prefix (c # hd (SplitN2 cs sep)) (c # cs)"
        using hd_SplitN2_prefix [of cs sep] by simp
      ultimately have "prefix sep (c # cs)" by (rule prefix_order.trans)
      with False show False by (simp add: HasPrefix_iff)
    qed
    with Cons False show ?thesis
      by (simp only: hd_SplitN2_Cons) (simp add: sublist_Cons_right)
  qed
qed

lemma SplitN2_no_sep: "\<not> sublist sep t \<Longrightarrow> SplitN2 t sep = [t]"
proof (induction t)
  case Nil
  then show ?case by simp
next
  case (Cons c cs)
  from Cons.prems have "\<not> HasPrefix (c # cs) sep"
    by (auto simp: HasPrefix_iff dest: prefix_imp_sublist)
  moreover from Cons.prems have "\<not> sublist sep cs"
    by (auto simp: sublist_Cons_right)
  ultimately show ?case using Cons.IH by simp
qed

lemma TrimLeft_suffix: "suffix (TrimLeft s) s"
proof (induction s rule: TrimLeft.induct)
  case (1 s)
  show ?case
  proof (cases "leadingSpace s")
    case None
    then show ?thesis by (simp add: TrimLeft.simps [of s])
  next
    case (Some p)
    with 1 have "suffix (TrimLeft (drop (length p) s)) (drop (length p) s)" by simp
    then have "suffix (TrimLeft (drop (length p) s)) s"
      by (rule suffix_order.trans) (rule suffix_drop)
    with Some show ?thesis by (simp add: TrimLeft.simps [of s])
  qed
qed

lemma TrimRight_prefix: "prefix (TrimRight s) s"
proof (induction s rule: TrimRight.induct)
  case (1 s)
  show ?case
  proof (cases "trailingSpace s")
    case None
    then show ?thesis by (simp add: TrimRight.simps [of s])
  next
    case (Some p)
    with 1 have "prefix (TrimRight (take (length s - length p) s)) (take (length s - length p) s)"
      by simp
    then have "prefix (TrimRight (take (length s - length p) s)) s"
      by (rule prefix_order.trans) (rule take_is_prefix)
    with Some show ?thesis by (simp add: TrimRight.simps [of s])
  qed
qed

lemma leadingSpace_TrimLeft: "leadingSpace (TrimLeft s) = None"
proof (induction s rule: TrimLeft.induct)
  case (1 s)
  then show ?case
    by (cases "leadingSpace s") (simp_all add: TrimLeft.simps [of s])
qed

lemma trailingSpace_TrimRight: "trailingSpace (TrimRight s) = None"
proof (induction s rule: TrimRight.induct)
  case (1 s)
  then show ?case
    by (cases "trailingSpace s") (simp_all add: TrimRight.simps [of s])
qed

lemma TrimLeft_id: "leadingSpace s = None \<Longrightarrow> TrimLeft s = s"
  by (simp add: TrimLeft.simps [of s])

lemma TrimRight_id: "trailingSpace s = None \<Longrightarrow> TrimRight s = s"
  by (simp add: TrimRight.simps [of s])

lemma leadingSpace_prefix:
  assumes "leadingSpace u = None" and "prefix t u"
  shows "leadingSpace t = None"
proof -
  have "\<not> HasPrefix t p" if "p \<in> set spaceSeqs" for p
  proof
    assume "HasPrefix t p"
    with assms(2) have "HasPrefix u p"
      by (auto simp: HasPrefix_iff intro: prefix_order.trans)
    with assms(1) that show False
      by (auto simp: leadingSpace_def find_None_iff)
  qed
  then show ?thesis by (auto simp: leadingSpace_def find_None_iff)
qed

lemma TrimSpace_sublist: "sublist (TrimSpace s) s"
proof -
  have "sublist (TrimRight (TrimLeft s)) (TrimLeft s)"
    using TrimRight_prefix by (rule prefix_imp_sublist)
  moreover have "sublist (TrimLeft s) s"
    using TrimLeft_suffix by (rule suffix_imp_sublist)
  ultimately show ?thesis
    unfolding TrimSpace_def by (rule sublist_order.order.trans)
qed

lemma TrimSpace_idem: "TrimSpace (TrimSpace s) = TrimSpace s"
proof -
  let ?t = "TrimRight (TrimLeft s)"
  have "leadingSpace ?t = None"
    using leadingSpace_TrimLeft TrimRight_prefix by (rule leadingSpace_prefix)
  then have "TrimLeft ?t = ?t" by (rule TrimLeft_id)
  moreover have "TrimRight ?t = ?t"
    using trailingSpace_TrimRight by (rule TrimRight_id)
  ultimately show ?thesis by (simp add: TrimSpace_def)
qed

lemma TrimSpace_fixed_ends:
  assumes "TrimSpace b = b"
  shows "leadingSpace b = None" and "trailingSpace b = None"
proof -
  from assms have b: "b = TrimRight (TrimLeft b)" by (simp add: TrimSpace_def)
  show "trailingSpace b = None"
    by (subst b) (rule trailingSpace_TrimRight)
  show "leadingSpace b = None"
    by (subst b) (rule leadingSpace_prefix [OF leadingSpace_TrimLeft TrimRight_prefix])
qed

lemma ReplaceAllString_length: "length (ReplaceAllString s) \<le> length s"
proof (induction s rule: ReplaceAllString.induct)
  case 1
  then show ?case by simp
next
  case (2 c cs)
  show ?case
  proof (cases "ansiMatch (c # cs)")
    case None
    with 2 show ?thesis by simp
  next
    case (Some r)
    with 2 have "length (ReplaceAllString r) \<le> length r" by simp
    with ansiMatch_length [OF Some] Some show ?thesis by simp
  qed
qed

lemma ReplaceAllString_same_length:
  "length (ReplaceAllString s) = length s \<Longrightarrow> ReplaceAllString s = s"
proof (induction s rule: ReplaceAllString.induct)
  case 1
  then show ?case by simp
next
  case (2 c cs)
  show ?case
  proof (cases "ansiMatch (c # cs)")
    case None
    with 2 show ?thesis by simp
  next
    case (Some r)
    with ansiMatch_length [OF Some] ReplaceAllString_length [of r] "2.prems"
    show ?thesis by simp
  qed
qed

lemma cleanBranchName_length: "length (cleanBranchName x) \<le> length (ReplaceAllString x)"
proof -
  have "length (TrimSpace (hd (SplitN2 (ReplaceAllString x) '' (''))) \<le> length (hd (SplitN2 (ReplaceAllString x) '' (''))"
    using TrimSpace_sublist by (rule sublist_length_le)
  also have "\<dots> \<le> length (ReplaceAllString x)"
    using hd_SplitN2_prefix by (rule prefix_length_le)
  finally show ?thesis by (simp add: cleanBranchName_def)
qed

lemma cleanBranchName_fixed:
  assumes "ReplaceAllString t = t" and "\<not> sublist '' ('' t" and "TrimSpace t = t"
  shows "cleanBranchName t = t"
  using assms by (simp add: cleanBranchName_def SplitN2_no_sep)

lemma cleanBranchName_no_paren: "\<not> sublist '' ('' (cleanBranchName x)"
proof
  assume "sublist '' ('' (cleanBranchName x)"
  moreover have "sublist (cleanBranchName x) (hd (SplitN2 (ReplaceAllString x) '' (''))"
    unfolding cleanBranchName_def Let_def by (rule TrimSpace_sublist)
  ultimately have "sublist '' ('' (hd (SplitN2 (ReplaceAllString x) '' (''))"
    by (rule sublist_order.order.trans)
  then show False using hd_SplitN2_no_sep [of "'' (''"] by simp
qed

lemma cleanBranchName_trimmed: "TrimSpace (cleanBranchName x) = cleanBranchName x"
  by (simp add: cleanBranchName_def TrimSpace_idem)

lemma ReplaceAllString_no_esc: "esc \<notin> set s \<Longrightarrow> ReplaceAllString s = s"
  by (induction s) auto

lemma ansiMatch_set: "ansiMatch s = Some r \<Longrightarrow> set r \<subseteq> set s"
proof (cases s)
  case Nil
  then show "ansiMatch s = Some r \<Longrightarrow> set r \<subseteq> set s" by simp
next
  case (Cons c cs)
  assume "ansiMatch s = Some r"
  with Cons have "dropWhile ansiParam cs = CHR ''m'' # r"
    by (auto split: if_splits list.splits)
  then have "set r \<subseteq> set (dropWhile ansiParam cs)" by auto
  also have "\<dots> \<subseteq> set cs" by (auto dest: set_dropWhileD)
  finally show "set r \<subseteq> set s" using Cons by auto
qed

lemma ReplaceAllString_set: "set (ReplaceAllString s) \<subseteq> set s"
proof (induction s rule: ReplaceAllString.induct)
  case 1
  then show ?case by simp
next
  case (2 c cs)
  show ?case
  proof (cases "ansiMatch (c # cs)")
    case None
    with 2 show ?thesis by auto
  next
    case (Some r)
    with 2 have "set (ReplaceAllString r) \<subseteq> set r" by simp
    with ansiMatch_set [OF Some] Some show ?thesis by auto
  qed
qed

lemma cleanBranchName_set: "set (cleanBranchName x) \<subseteq> set x"
proof -
  have "set (TrimSpace (hd (SplitN2 (ReplaceAllString x) '' (''))) \<subseteq> set (hd (SplitN2 (ReplaceAllString x) '' (''))"
    using TrimSpace_sublist by (rule set_mono_sublist)
  also have "\<dots> \<subseteq> set (ReplaceAllString x)"
    using hd_SplitN2_prefix by (rule set_mono_prefix)
  also have "\<dots> \<subseteq> set x" by (rule ReplaceAllString_set)
  finally show ?thesis by (simp add: cleanBranchName_def)
qed

section \<open>Facts about colour codes and decorated lines\<close>

lemma ansiMatch_append_space:
  assumes "ansiMatch (c # cs) = None"
  shows "ansiMatch (c # cs @ CHR '' '' # rest) = None"
proof (cases "\<forall>x\<in>set cs. ansiParam x")
  case True
  then have "dropWhile ansiParam (cs @ CHR '' '' # rest) = CHR '' '' # rest"
    by (simp add: dropWhile_append2 ansiParam_def)
  then show ?thesis by simp
next
  case False
  then have "dropWhile ansiParam (cs @ CHR '' '' # rest) = dropWhile ansiParam cs @ CHR '' '' # rest"
    by (auto simp: dropWhile_append)
  moreover from False have "dropWhile ansiParam cs \<noteq> []" by auto
  ultimately show ?thesis using assms
    by (cases "dropWhile ansiParam cs") (auto split: if_splits)
qed

lemma ReplaceAllString_fixed_Cons:
  assumes "ReplaceAllString (c # cs) = c # cs"
  shows "ansiMatch (c # cs) = None" and "ReplaceAllString cs = cs"
proof -
  show none: "ansiMatch (c # cs) = None"
  proof (cases "ansiMatch (c # cs)")
    case None
    then show ?thesis .
  next
    case (Some r)
    with assms have "ReplaceAllString r = c # cs" by simp
    with ReplaceAllString_length [of r] ansiMatch_length [OF Some]
    show ?thesis by simp
  qed
  with assms show "ReplaceAllString cs = cs" by simp
qed

lemma ReplaceAllString_append_space:
  "ReplaceAllString b = b \<Longrightarrow>
   ReplaceAllString (b @ CHR '' '' # rest) = b @ CHR '' '' # ReplaceAllString rest"
proof (induction b)
  case Nil
  then show ?case by (simp add: esc_def)
next
  case (Cons c cs)
  from ReplaceAllString_fixed_Cons [OF Cons.prems]
  have "ansiMatch (c # cs) = None" and "ReplaceAllString cs = cs" .
  with Cons.IH ansiMatch_append_space [of c cs rest] show ?case by simp
qed

lemma ReplaceAllString_color:
  assumes "color \<in> {ColorGreen, ColorRed, ColorYellow}"
  shows "ReplaceAllString (color @ rest) = ReplaceAllString rest"
  using assms by (auto simp: ColorGreen_def ColorRed_def ColorYellow_def ansiParam_def)

lemma SplitN2_first_pair:
  assumes "\<not> sublist [x, y] b" and "b \<noteq> [] \<Longrightarrow> last b \<noteq> x"
  shows "SplitN2 (b @ x # y # rest) [x, y] = [b, rest]"
  using assms
proof (induction b)
  case Nil
  then show ?case by (simp add: HasPrefix_def)
next
  case (Cons c cs)
  have no_head: "\<not> HasPrefix (c # cs @ x # y # rest) [x, y]"
  proof (cases cs)
    case Nil
    with Cons.prems(2) show ?thesis by (simp add: HasPrefix_def)
  next
    case (Cons d ds)
    have "prefix [c, d] (c # d # ds)" by simp
    then have "sublist [c, d] (c # d # ds)" by (rule prefix_imp_sublist)
    with Cons.prems(1) Cons show ?thesis by (auto simp: HasPrefix_def)
  qed
  from Cons.prems(1) have "\<not> sublist [x, y] cs"
    by (auto simp: sublist_Cons_right)
  moreover from Cons.prems(2) have "cs \<noteq> [] \<Longrightarrow> last cs \<noteq> x" by simp
  ultimately have "SplitN2 (cs @ x # y # rest) [x, y] = [cs, rest]" by (rule Cons.IH)
  with no_head show ?case by simp
qed

lemma trailingSpace_None_last:
  assumes "trailingSpace b = None" and "b \<noteq> []"
  shows "last b \<noteq> CHR '' ''"
proof
  assume "last b = CHR '' ''"
  with assms(2) have "b = butlast b @ '' ''"
    by (metis append_butlast_last_id)
  then have "suffix '' '' b" by (rule suffixI)
  then have "HasSuffix b '' ''" by (simp add: HasSuffix_iff)
  moreover have "'' '' \<in> set spaceSeqs" by (simp add: spaceSeqs_def)
  ultimately show False using assms(1)
    by (auto simp: trailingSpace_def find_None_iff)
qed

lemma cleanBranchName_fzfItem:
  assumes "TrimSpace b = b" and "\<not> sublist '' ('' b" and "ReplaceAllString b = b"
    and "HasPrefix indicator ''(''" and "color \<in> {ColorGreen, ColorRed, ColorYellow}"
  shows "cleanBranchName (fzfItem color b indicator) = b"
proof -
  from assms(4) obtain ind where ind: "indicator = CHR ''('' # ind"
    by (cases indicator) (auto simp: HasPrefix_def)
  have "ReplaceAllString (fzfItem color b indicator)
        = ReplaceAllString (b @ CHR '' '' # CHR ''('' # ind @ ColorReset)"
    using assms(5) ReplaceAllString_color [of color] by (simp add: fzfItem_def ind)
  also have "\<dots> = b @ CHR '' '' # ReplaceAllString (CHR ''('' # ind @ ColorReset)"
    using assms(3) by (rule ReplaceAllString_append_space)
  also have "\<dots> = b @ CHR '' '' # CHR ''('' # ReplaceAllString (ind @ ColorReset)"
    by (simp add: esc_def)
  finally have stripped: "ReplaceAllString (fzfItem color b indicator)
        = b @ CHR '' '' # CHR ''('' # ReplaceAllString (ind @ ColorReset)" .
  have "b \<noteq> [] \<Longrightarrow> last b \<noteq> CHR '' ''"
    using TrimSpace_fixed_ends(2) [OF assms(1)] by (rule trailingSpace_None_last)
  with assms(2)
  have "SplitN2 (b @ CHR '' '' # CHR ''('' # ReplaceAllString (ind @ ColorReset)) '' (''
        = [b, ReplaceAllString (ind @ ColorReset)]"
    by (rule SplitN2_first_pair)
  with stripped assms(1) show ?thesis by (simp add: cleanBranchName_def)
qed

section \<open>Facts about the commands a run starts\<close>

lemma isMergedToHead_cmds: "cmds (snd (isMergedToHead E b st)) = cmds st @ [gitBranchMerged]"
  by (simp add: isMergedToHead_def CombinedOutput_def Fprintf_stderr_def
      split: prod.splits option.splits)

lemma isMergedToHead_result:
  "fst (isMergedToHead E b st) =
     (case exec E (cmds st) gitBranchMerged of
        (output, Some err) \<Rightarrow> False
      | (output, None) \<Rightarrow> TrimSpace b \<in> set (map TrimSpace (Split output nl)))"
  by (auto simp: isMergedToHead_def CombinedOutput_def list_ex_iff image_iff
      split: prod.splits option.splits) metis

lemma fzfItemsLoop_cmds:
  "cmds (snd (fzfItemsLoop L E raw items st)) =
     cmds st @ replicate (length (filter (\<lambda>b. \<not> isProtectedBranch b) (candidates raw))) gitBranchMerged"
proof (induction raw arbitrary: items st)
  case Nil
  then show ?case by (simp add: candidates_def)
next
  case (Cons branch rest)
  obtain m st1 where m: "isMergedToHead E (TrimSpace branch) st = (m, st1)"
    by (cases "isMergedToHead E (TrimSpace branch) st")
  with isMergedToHead_cmds [of E "TrimSpace branch" st]
  have st1: "cmds st1 = cmds st @ [gitBranchMerged]" by simp
  show ?case
    using m st1 Cons.IH
    by (cases m) (simp_all add: candidates_def Let_def replicate_app_Cons_same)
qed

lemma deleteLoop_cmds:
  "cmds (deleteLoop L E branches st) = cmds st @ map deleteCommand (deletable branches)"
proof (induction branches arbitrary: st)
  case Nil
  then show ?case by (simp add: deletable_def)
next
  case (Cons branch rest)
  then show ?case
    by (simp add: deletable_def deleteCommand_def Let_def CombinedOutput_def put_def puts_def
        split: prod.splits option.splits)
qed

lemma count_deleteCommand: "count_list (map deleteCommand bs) gitBranchMerged = 0"
  by (induction bs) (simp_all add: deleteCommand_def gitPushDelete_def gitBranchMerged_def)

lemma count_list_replicate_same: "count_list (replicate n x) x = n"
  by (induction n) simp_all

lemma fzfArgs_not_merged: "fzfArgs p \<noteq> gitBranchMerged"
  by (simp add: fzfArgs_def gitBranchMerged_def)

lemma confirmAndDelete_count:
  "count_list (cmds (fst (confirmAndDelete L E bs st))) gitBranchMerged
   = count_list (cmds st) gitBranchMerged"
  by (simp add: confirmAndDelete_def Let_def put_def puts_def deleteLoop_cmds count_deleteCommand)

lemma afterSelection_count:
  "count_list (cmds (fst (afterSelection L E out st))) gitBranchMerged
   = count_list (cmds st) gitBranchMerged"
  by (simp add: afterSelection_def Let_def put_def puts_def confirmAndDelete_count
      split: prod.splits)

lemma selectAndDelete_count:
  "count_list (cmds (fst (selectAndDelete L E items st))) gitBranchMerged
   = count_list (cmds st) gitBranchMerged"
  by (simp add: selectAndDelete_def Let_def put_def Fprintf_stderr_def afterSelection_count
      fzfArgs_not_merged
      split: sum.splits fzf_result.splits option.splits run_error.splits)

section \<open>Facts about the listing loop\<close>

lemma fzfItemsLoop_Cons:
  "fzfItemsLoop L E (branch # rest) items st =
     (if TrimSpace branch \<in> set (candidates [branch]) then
        if isProtectedBranch (TrimSpace branch) then
          fzfItemsLoop L E rest (items @ [fzfItem ColorYellow (TrimSpace branch) (ProtectedIndicator L)]) st
        else if fst (isMergedToHead E (TrimSpace branch) st) then
          fzfItemsLoop L E rest (items @ [fzfItem ColorGreen (TrimSpace branch) (MergedIndicator L)])
            (snd (isMergedToHead E (TrimSpace branch) st))
        else
          fzfItemsLoop L E rest (items @ [fzfItem ColorRed (TrimSpace branch) (UnmergedIndicator L)])
            (snd (isMergedToHead E (TrimSpace branch) st))
      else fzfItemsLoop L E rest items st)"
  by (cases "isMergedToHead E (TrimSpace branch) st")
     (auto simp: candidates_def Let_def split: bool.splits)

lemma candidates_Cons:
  "candidates (branch # rest) =
     (if TrimSpace branch \<noteq> [] \<and> \<not> HasSuffix (TrimSpace branch) ''/HEAD''
      then TrimSpace branch # candidates rest else candidates rest)"
  by (simp add: candidates_def)



section \<open>Facts about the selection and the confirmation\<close>

lemma leadingSpace_None_hd:
  assumes "s \<noteq> []" and "hd s \<notin> set (map hd spaceSeqs)"
  shows "leadingSpace s = None"
proof -
  have "\<not> HasPrefix s p" if "p \<in> set spaceSeqs" for p
  proof
    assume "HasPrefix s p"
    then have "prefix p s" by (simp add: HasPrefix_iff)
    moreover from that have "p \<noteq> []" by (rule spaceSeqs_nonempty)
    ultimately have "hd p = hd s" using assms(1) by (auto simp: prefix_def)
    with that assms(2) show False by (metis imageI set_map)
  qed
  then show ?thesis by (auto simp: leadingSpace_def find_None_iff)
qed

lemma trailingSpace_None_by_last:
  assumes "s \<noteq> []" and "last s \<notin> set (map last spaceSeqs)"
  shows "trailingSpace s = None"
proof -
  have "\<not> HasSuffix s p" if "p \<in> set spaceSeqs" for p
  proof
    assume "HasSuffix s p"
    then have "suffix p s" by (simp add: HasSuffix_iff)
    moreover from that have "p \<noteq> []" by (rule spaceSeqs_nonempty)
    ultimately have "last p = last s" using assms(1) by (auto simp: suffix_def)
    with that assms(2) show False by (metis imageI set_map)
  qed
  then show ?thesis by (auto simp: trailingSpace_def find_None_iff)
qed

lemma trailingSpace_nl: "trailingSpace (s @ [nl]) = Some [nl]"
  by (simp add: trailingSpace_def spaceSeqs_def HasSuffix_def nl_def)

lemma TrimSpace_final_nl:
  assumes "s \<noteq> []" and "hd s \<notin> set (map hd spaceSeqs)" and "last s \<notin> set (map last spaceSeqs)"
  shows "TrimSpace (s @ [nl]) = s"
proof -
  from assms(1,2) have "leadingSpace (s @ [nl]) = None"
    by (intro leadingSpace_None_hd) simp_all
  then have "TrimLeft (s @ [nl]) = s @ [nl]" by (rule TrimLeft_id)
  moreover have "TrimRight (s @ [nl]) = TrimRight s"
    by (subst TrimRight.simps) (simp add: trailingSpace_nl)
  moreover from assms(1,3) have "TrimRight s = s"
    by (intro TrimRight_id trailingSpace_None_by_last)
  ultimately show ?thesis by (simp add: TrimSpace_def)
qed

lemma Split_no_sep: "sep \<notin> set a \<Longrightarrow> Split a sep = [a]"
  by (induction a) auto

lemma Split_at_sep: "sep \<notin> set a \<Longrightarrow> Split (a @ sep # rest) sep = a # Split rest sep"
  by (induction a) auto

lemma fzfItem_ends:
  assumes "color \<in> {ColorGreen, ColorRed, ColorYellow}"
  shows "fzfItem color b indicator \<noteq> []"
    and "hd (fzfItem color b indicator @ rest) = esc"
    and "last (rest @ fzfItem color b indicator) = CHR ''m''"
  using assms by (auto simp: fzfItem_def ColorGreen_def ColorRed_def ColorYellow_def ColorReset_def)

lemma fzfItem_no_nl:
  assumes "color \<in> {ColorGreen, ColorRed, ColorYellow}" and "nl \<notin> set b" and "nl \<notin> set indicator"
  shows "nl \<notin> set (fzfItem color b indicator)"
  using assms
  by (auto simp: fzfItem_def ColorGreen_def ColorRed_def ColorYellow_def ColorReset_def nl_def esc_def)

lemma esc_not_space: "esc \<notin> set (map hd spaceSeqs)" "CHR ''m'' \<notin> set (map last spaceSeqs)"
  by (simp_all add: spaceSeqs_def esc_def)

lemma confirmAndDelete_unconfirmed:
  assumes "askOne E \<noteq> Answered True"
  shows "confirmAndDelete L E branchesToDelete st =
    (st\<lparr>stdout := stdout st
        @ [ConfirmHeading (ConfirmDeletion L), TableRow (Branch L) (Remote L),
           Println (replicate 60 CHR ''-'')]
        @ map tableRow branchesToDelete
        @ [Println (replicate 60 CHR ''-''), Println (DeletionCancelled L)]\<rparr>, 0)"
  using assms
  by (cases "askOne E") (simp_all add: confirmAndDelete_def Let_def puts_def put_def)

lemma afterSelection_unconfirmed:
  assumes "askOne E \<noteq> Answered True"
  shows "cmds (fst (afterSelection L E out st)) = cmds st"
  using assms
  by (simp add: afterSelection_def Let_def put_def puts_def confirmAndDelete_unconfirmed
      split: prod.splits)

lemma selectAndDelete_unconfirmed:
  assumes "askOne E \<noteq> Answered True"
  shows "set (cmds (fst (selectAndDelete L E items st))) \<subseteq> set (cmds st) \<union> range fzfArgs"
  using assms
  by (auto simp: selectAndDelete_def Let_def put_def Fprintf_stderr_def afterSelection_unconfirmed
      split: sum.splits fzf_result.splits option.splits run_error.splits)

lemma main_unconfirmed:
  assumes "askOne E \<noteq> Answered True"
  shows "set (cmds (fst (main L E))) \<subseteq> {gitBranchRemote, gitBranchMerged} \<union> range fzfArgs"
proof (cases "lookPath E")
  case (Some err)
  then show ?thesis by (simp add: main_def puts_def initial_def)
next
  case None
  obtain listing err where ex: "exec E [] gitBranchRemote = (listing, err)"
    by (cases "exec E [] gitBranchRemote")
  show ?thesis
  proof (cases err)
    case (Some e)
    with None ex show ?thesis
      by (simp add: main_def CombinedOutput_def initial_def put_def)
  next
    case none: None
    let ?st1 = "initial\<lparr>cmds := [gitBranchRemote]\<rparr>"
    obtain items st2 where l: "fzfItemsLoop L E (Split listing nl) [] ?st1 = (items, st2)"
      by (cases "fzfItemsLoop L E (Split listing nl) [] ?st1")
    with fzfItemsLoop_cmds [of L E "Split listing nl" "[]" ?st1]
    have st2: "set (cmds st2) \<subseteq> {gitBranchRemote, gitBranchMerged}" by auto
    with selectAndDelete_unconfirmed [OF assms, of L items st2]
    have "set (cmds (fst (selectAndDelete L E items st2)))
        \<subseteq> {gitBranchRemote, gitBranchMerged} \<union> range fzfArgs" by blast
    with None ex none l st2 show ?thesis
      by (auto simp: main_def CombinedOutput_def initial_def put_def)
  qed
qed

lemma main_no_push:
  assumes "askOne E \<noteq> Answered True"
  shows "gitPushDelete remoteName branchName \<notin> set (cmds (fst (main L E)))"
proof
  assume "gitPushDelete remoteName branchName \<in> set (cmds (fst (main L E)))"
  with main_unconfirmed [OF assms, of L]
  have "gitPushDelete remoteName branchName \<in> {gitBranchRemote, gitBranchMerged} \<union> range fzfArgs"
    by blast
  then show False
    by (auto simp: gitPushDelete_def gitBranchRemote_def gitBranchMerged_def fzfArgs_def)
qed

lemma deleteLoop_single:
  assumes "length (SplitN2 branch ''/'') = 2"
  shows "deleteLoop L E (branch # rest) st =
     deleteLoop L E rest
       (case exec E (cmds st) (deleteCommand branch) of
          (deleteOutput, Some err) \<Rightarrow>
            st\<lparr>stdout := stdout st @ [Println (ErrorDeletingBranch L branch err), Println deleteOutput],
               cmds := cmds st @ [deleteCommand branch]\<rparr>
        | (deleteOutput, None) \<Rightarrow>
            st\<lparr>stdout := stdout st @ [Println (BranchDeletedSuccessfully L branch), Println deleteOutput],
               cmds := cmds st @ [deleteCommand branch]\<rparr>)"
  using assms
  by (cases st)
     (simp add: Let_def CombinedOutput_def deleteCommand_def puts_def
      split: prod.splits option.splits)

section \<open>The merged query\<close>

text \<open>
  Claim C1, as the code has it. The query \<^verbatim>\<open>git branch -r --merged HEAD\<close> is run by
  \<^verbatim>\<open>isMergedToHead\<close>, which the listing loop calls for every branch it keeps that is not
  protected. So a run starts the query as many times as there are such branches (none
  when the selector is missing or the listing fails), and the Merged status of a branch
  is the membership of its trimmed name in the trimmed lines of the output of the query
  run for that branch; a failed query gives \<^verbatim>\<open>false\<close>.
\<close>

theorem merged_query_count:
  "count_list (cmds (fst (main L E))) gitBranchMerged =
     (case lookPath E of
        Some err \<Rightarrow> 0
      | None \<Rightarrow>
          (case exec E [] gitBranchRemote of
             (output, Some err) \<Rightarrow> 0
           | (output, None) \<Rightarrow>
               length (filter (\<lambda>b. \<not> isProtectedBranch b) (candidates (Split output nl)))))
   \<and> fst (isMergedToHead E b st) =
     (case exec E (cmds st) gitBranchMerged of
        (output, Some err) \<Rightarrow> False
      | (output, None) \<Rightarrow> TrimSpace b \<in> set (map TrimSpace (Split output nl)))"
proof
  show "fst (isMergedToHead E b st) =
     (case exec E (cmds st) gitBranchMerged of
        (output, Some err) \<Rightarrow> False
      | (output, None) \<Rightarrow> TrimSpace b \<in> set (map TrimSpace (Split output nl)))"
    by (rule isMergedToHead_result)
next
  have loop: "count_list (cmds (snd (fzfItemsLoop L E raw [] st))) gitBranchMerged
      = count_list (cmds st) gitBranchMerged
        + length (filter (\<lambda>b. \<not> isProtectedBranch b) (candidates raw))" for raw st
    by (simp add: fzfItemsLoop_cmds count_list_replicate_same)
  show "count_list (cmds (fst (main L E))) gitBranchMerged =
     (case lookPath E of
        Some err \<Rightarrow> 0
      | None \<Rightarrow>
          (case exec E [] gitBranchRemote of
             (output, Some err) \<Rightarrow> 0
           | (output, None) \<Rightarrow>
               length (filter (\<lambda>b. \<not> isProtectedBranch b) (candidates (Split output nl)))))"
  proof (cases "lookPath E")
    case (Some err)
    then show ?thesis by (simp add: main_def puts_def initial_def)
  next
    case None
    obtain listing err where ex: "exec E [] gitBranchRemote = (listing, err)"
      by (cases "exec E [] gitBranchRemote")
    show ?thesis
    proof (cases err)
      case (Some e)
      with None ex show ?thesis
        by (simp add: main_def CombinedOutput_def initial_def put_def
            gitBranchRemote_def gitBranchMerged_def)
    next
      case none: None
      let ?st1 = "initial\<lparr>cmds := [gitBranchRemote]\<rparr>"
      obtain items st2 where l: "fzfItemsLoop L E (Split listing nl) [] ?st1 = (items, st2)"
        by (cases "fzfItemsLoop L E (Split listing nl) [] ?st1")
      with loop [of "Split listing nl" ?st1]
      have "count_list (cmds st2) gitBranchMerged
        = length (filter (\<lambda>b. \<not> isProtectedBranch b) (candidates (Split listing nl)))"
        by (simp add: gitBranchRemote_def gitBranchMerged_def)
      with None ex none l show ?thesis
        by (simp add: main_def CombinedOutput_def initial_def put_def selectAndDelete_count)
    qed
  qed
qed

text \<open>
  Claim C1 as it is written fails: with two branches in the listing, none of them
  protected, the run starts the query twice.
\<close>

theorem merged_query_run_twice:
  "count_list (cmds (fst (main english
     (sampleEnv (gitStub (''  origin/a'' @ [nl] @ ''  origin/b'' @ [nl]) ([], None) deleteOk)
        selectNone (Answered False))))) gitBranchMerged = 2"
  by code_simp

section \<open>Cleaning a branch name\<close>

text \<open>
  Claim C3, as the code has it. Cleaning a second time changes nothing exactly when the
  cleaned name holds no colour code any more: cutting at \<^verbatim>\<open>" ("\<close> and trimming are
  idempotent, one pass of the colour-code expression is not. That is so in particular
  for every string without an escape byte.
\<close>

theorem cleanBranchName_idempotent_iff:
  "(cleanBranchName (cleanBranchName x) = cleanBranchName x
     \<longleftrightarrow> ReplaceAllString (cleanBranchName x) = cleanBranchName x)
   \<and> (esc \<notin> set x \<longrightarrow> cleanBranchName (cleanBranchName x) = cleanBranchName x)"
proof -
  have fixed: "cleanBranchName (cleanBranchName x) = cleanBranchName x"
    if "ReplaceAllString (cleanBranchName x) = cleanBranchName x"
    using that cleanBranchName_no_paren cleanBranchName_trimmed by (rule cleanBranchName_fixed)
  have stripped: "ReplaceAllString (cleanBranchName x) = cleanBranchName x"
    if idem: "cleanBranchName (cleanBranchName x) = cleanBranchName x"
  proof -
    have "length (cleanBranchName x) \<le> length (ReplaceAllString (cleanBranchName x))"
      using cleanBranchName_length [of "cleanBranchName x"] idem by simp
    with ReplaceAllString_length [of "cleanBranchName x"]
    have "length (ReplaceAllString (cleanBranchName x)) = length (cleanBranchName x)" by simp
    then show ?thesis by (rule ReplaceAllString_same_length)
  qed
  have "cleanBranchName (cleanBranchName x) = cleanBranchName x" if "esc \<notin> set x"
  proof (rule fixed)
    from that cleanBranchName_set [of x] have "esc \<notin> set (cleanBranchName x)" by blast
    then show "ReplaceAllString (cleanBranchName x) = cleanBranchName x"
      by (rule ReplaceAllString_no_esc)
  qed
  with fixed stripped show ?thesis by blast
qed

theorem cleanBranchName_idempotent_iff_witness:
  "esc \<notin> set ''  origin/foo (merged)  ''
   \<and> ReplaceAllString (cleanBranchName ''  origin/foo (merged)  '') = cleanBranchName ''  origin/foo (merged)  ''
   \<and> cleanBranchName (cleanBranchName ''  origin/foo (merged)  '') = cleanBranchName ''  origin/foo (merged)  ''
   \<and> cleanBranchName ''  origin/foo (merged)  '' = ''origin/foo''"
proof -
  have 1: "esc \<notin> set ''  origin/foo (merged)  ''" by (simp add: esc_def)
  have 2: "cleanBranchName ''  origin/foo (merged)  '' = ''origin/foo''" by code_simp
  note both = cleanBranchName_idempotent_iff [of "''  origin/foo (merged)  ''"]
  from both [THEN conjunct2] 1
  have 3: "cleanBranchName (cleanBranchName ''  origin/foo (merged)  '') = cleanBranchName ''  origin/foo (merged)  ''"
    by (rule mp)
  with both [THEN conjunct1]
  have 4: "ReplaceAllString (cleanBranchName ''  origin/foo (merged)  '') = cleanBranchName ''  origin/foo (merged)  ''"
    by (rule iffD1)
  from 1 4 3 2 show ?thesis by (intro conjI)
qed

text \<open>
  Claim C3 as it is written fails: of a colour code with another one inside it, the
  first pass removes the inner one and leaves the outer one whole, and the second pass
  removes that.
\<close>

theorem cleanBranchName_not_idempotent:
  "cleanBranchName (cleanBranchName (esc # CHR ''['' # esc # ''[0mm''))
   \<noteq> cleanBranchName (esc # CHR ''['' # esc # ''[0mm'')"
  by code_simp

text \<open>
  Claim C4, as the code has it. Cleaning the decorated line of a branch gives the
  branch back when the branch is trimmed, holds neither \<^verbatim>\<open>" ("\<close> nor a colour code, and
  the indicator begins with \<^verbatim>\<open>(\<close>.
\<close>

theorem decoration_reversible:
  assumes "TrimSpace b = b" and "\<not> sublist '' ('' b" and "ReplaceAllString b = b"
    and "HasPrefix indicator ''(''" and "color \<in> {ColorGreen, ColorRed, ColorYellow}"
  shows "cleanBranchName (fzfItem color b indicator) = b"
  using assms by (rule cleanBranchName_fzfItem)

theorem decoration_reversible_witness:
  "TrimSpace ''origin/feature-x'' = ''origin/feature-x''
   \<and> \<not> sublist '' ('' ''origin/feature-x''
   \<and> ReplaceAllString ''origin/feature-x'' = ''origin/feature-x''
   \<and> HasPrefix (MergedIndicator english) ''(''
   \<and> ColorGreen \<in> {ColorGreen, ColorRed, ColorYellow}
   \<and> cleanBranchName (fzfItem ColorGreen ''origin/feature-x'' (MergedIndicator english))
       = ''origin/feature-x''"
proof -
  have 1: "TrimSpace ''origin/feature-x'' = ''origin/feature-x''" by code_simp
  have 2: "\<not> sublist '' ('' ''origin/feature-x''" by code_simp
  have 3: "ReplaceAllString ''origin/feature-x'' = ''origin/feature-x''" by code_simp
  have 4: "HasPrefix (MergedIndicator english) ''(''" by code_simp
  have 5: "ColorGreen \<in> {ColorGreen, ColorRed, ColorYellow}" by simp
  from 1 2 3 4 5 decoration_reversible [OF 1 2 3 4 5] show ?thesis by simp
qed

text \<open>
  Claim C4 as it is written fails: a trimmed name that holds \<^verbatim>\<open>" ("\<close> is cut there.
\<close>

theorem decoration_not_reversible:
  "TrimSpace ''origin/fix (v2)'' = ''origin/fix (v2)''
   \<and> cleanBranchName (fzfItem ColorGreen ''origin/fix (v2)'' (MergedIndicator english))
       \<noteq> ''origin/fix (v2)''"
  by code_simp

section \<open>Protected branches\<close>

text \<open>
  Claim C5. \<^verbatim>\<open>isProtectedBranch\<close> holds exactly when the text after the first \<^verbatim>\<open>/\<close> of
  its argument, or the argument when it has no \<^verbatim>\<open>/\<close>, is \<^verbatim>\<open>main\<close> or \<^verbatim>\<open>master\<close>; it
  holds of \<^verbatim>\<open>origin/main\<close> and of \<^verbatim>\<open>main\<close> and not of \<^verbatim>\<open>origin/main2\<close>.
\<close>

theorem isProtectedBranch_name:
  "(isProtectedBranch b \<longleftrightarrow>
      (if CHR ''/'' \<in> set b then tl (dropWhile (\<lambda>c. c \<noteq> CHR ''/'') b) else b) \<in> {''main'', ''master''})
   \<and> isProtectedBranch ''origin/main''
   \<and> \<not> isProtectedBranch ''origin/main2''
   \<and> isProtectedBranch ''main''"
  by (simp add: isProtectedBranch_def SplitN2_char protectedBranches_def Let_def)

section \<open>The listing\<close>

text \<open>
  Claim C2, at the input the claim names. The line \<^verbatim>\<open>origin/HEAD -> origin/main\<close> does
  not end in \<^verbatim>\<open>/HEAD\<close>, so the test \<^verbatim>\<open>strings.HasSuffix(trimmedBranch, "/HEAD")\<close> lets
  it through: whatever the localizer and the answers of git, the loop gives two lines,
  and the second one is the line of the HEAD pointer, decorated as merged or as
  unmerged.
\<close>

theorem head_pointer_listed:
  "length (fst (fzfItemsLoop L E [''  origin/foo'', ''origin/HEAD -> origin/main''] [] st)) = 2
   \<and> (fst (fzfItemsLoop L E [''  origin/foo'', ''origin/HEAD -> origin/main''] [] st) ! 1
        = fzfItem ColorGreen ''origin/HEAD -> origin/main'' (MergedIndicator L)
      \<or> fst (fzfItemsLoop L E [''  origin/foo'', ''origin/HEAD -> origin/main''] [] st) ! 1
        = fzfItem ColorRed ''origin/HEAD -> origin/main'' (UnmergedIndicator L))"
proof -
  have t1: "TrimSpace ''  origin/foo'' = ''origin/foo''" by code_simp
  have t2: "TrimSpace ''origin/HEAD -> origin/main'' = ''origin/HEAD -> origin/main''" by code_simp
  have c: "candidates [''  origin/foo''] = [''origin/foo'']"
      "candidates [''origin/HEAD -> origin/main''] = [''origin/HEAD -> origin/main'']"
    by (simp_all add: candidates_Cons t1 t2 HasSuffix_def) (simp_all add: candidates_def)
  have p: "\<not> isProtectedBranch ''origin/foo''" "\<not> isProtectedBranch ''origin/HEAD -> origin/main''"
    by code_simp+
  show ?thesis
    by (simp add: fzfItemsLoop_Cons t1 t2 c p del: fzfItemsLoop.simps(2))
qed






section \<open>The deletion\<close>

lemma afterSelection_two_lines:
  assumes "HasPrefix (ProtectedIndicator L) ''(''" and "HasPrefix (MergedIndicator L) ''(''"
    and "nl \<notin> set (ProtectedIndicator L)" and "nl \<notin> set (MergedIndicator L)"
    and "askOne E = Answered True"
    and "exec E (cmds st) (gitPushDelete ''origin'' ''feature-x'') = (deleteOutput, None)"
  shows "selectionLoop
           [fzfItem ColorYellow ''origin/main'' (ProtectedIndicator L),
            fzfItem ColorGreen ''origin/feature-x'' (MergedIndicator L)] [] []
         = ([''origin/feature-x''], [''origin/main''])
    \<and> afterSelection L E
         (fzfItem ColorYellow ''origin/main'' (ProtectedIndicator L) @ [nl]
          @ fzfItem ColorGreen ''origin/feature-x'' (MergedIndicator L) @ [nl]) st
       = (\<lparr>stdout = stdout st @
               [Println (ProtectedBranchSkipped L ''origin/main''),
                ConfirmHeading (ConfirmDeletion L),
                TableRow (Branch L) (Remote L),
                Println (replicate 60 CHR ''-''),
                TableRow ''feature-x'' ''origin'',
                Println (replicate 60 CHR ''-''),
                Println (BranchDeletedSuccessfully L ''origin/feature-x''),
                Println deleteOutput],
          stderr = stderr st,
          cmds = cmds st @ [gitPushDelete ''origin'' ''feature-x'']\<rparr>, 0)"
proof -
  let ?l1 = "fzfItem ColorYellow ''origin/main'' (ProtectedIndicator L)"
  let ?l2 = "fzfItem ColorGreen ''origin/feature-x'' (MergedIndicator L)"
  have c1: "cleanBranchName ?l1 = ''origin/main''"
  proof (rule cleanBranchName_fzfItem)
    show "TrimSpace ''origin/main'' = ''origin/main''" by code_simp
    show "\<not> sublist '' ('' ''origin/main''" by code_simp
    show "ReplaceAllString ''origin/main'' = ''origin/main''" by code_simp
  qed (simp_all add: assms)
  have c2: "cleanBranchName ?l2 = ''origin/feature-x''"
  proof (rule cleanBranchName_fzfItem)
    show "TrimSpace ''origin/feature-x'' = ''origin/feature-x''" by code_simp
    show "\<not> sublist '' ('' ''origin/feature-x''" by code_simp
    show "ReplaceAllString ''origin/feature-x'' = ''origin/feature-x''" by code_simp
  qed (simp_all add: assms)
  have p: "isProtectedBranch ''origin/main''" "\<not> isProtectedBranch ''origin/feature-x''"
    by code_simp+
  have sel: "selectionLoop [?l1, ?l2] [] [] = ([''origin/feature-x''], [''origin/main''])"
    by (simp add: c1 c2 p)
  have "TrimSpace ((?l1 @ nl # ?l2) @ [nl]) = ?l1 @ nl # ?l2"
  proof (rule TrimSpace_final_nl)
    show "?l1 @ nl # ?l2 \<noteq> []" by simp
    have "hd (?l1 @ nl # ?l2) = esc"
      using fzfItem_ends(2) [of ColorYellow "''origin/main''" "ProtectedIndicator L" "nl # ?l2"]
      by simp
    then show "hd (?l1 @ nl # ?l2) \<notin> set (map hd spaceSeqs)"
      using esc_not_space(1) by metis
    have "last (?l1 @ nl # ?l2) = CHR ''m''"
      using fzfItem_ends(3) [of ColorGreen "?l1 @ [nl]" "''origin/feature-x''" "MergedIndicator L"]
      by simp
    then show "last (?l1 @ nl # ?l2) \<notin> set (map last spaceSeqs)"
      using esc_not_space(2) by metis
  qed
  then have trim: "TrimSpace (?l1 @ [nl] @ ?l2 @ [nl]) = ?l1 @ nl # ?l2" by simp
  have n1: "nl \<notin> set ?l1"
  proof (rule fzfItem_no_nl)
    show "nl \<notin> set ''origin/main''" by (simp add: nl_def)
  qed (simp_all add: assms)
  have n2: "nl \<notin> set ?l2"
  proof (rule fzfItem_no_nl)
    show "nl \<notin> set ''origin/feature-x''" by (simp add: nl_def)
  qed (simp_all add: assms)
  have split: "Split (?l1 @ nl # ?l2) nl = [?l1, ?l2]"
    using n1 n2 by (simp add: Split_at_sep Split_no_sep)
  have row: "tableRow ''origin/feature-x'' = TableRow ''feature-x'' ''origin''" by code_simp
  have parts: "length (SplitN2 ''origin/feature-x'' ''/'') = 2"
    and cmd: "deleteCommand ''origin/feature-x'' = gitPushDelete ''origin'' ''feature-x''"
    by code_simp+
  have "afterSelection L E (?l1 @ [nl] @ ?l2 @ [nl]) st
       = (\<lparr>stdout = stdout st @
               [Println (ProtectedBranchSkipped L ''origin/main''),
                ConfirmHeading (ConfirmDeletion L),
                TableRow (Branch L) (Remote L),
                Println (replicate 60 CHR ''-''),
                TableRow ''feature-x'' ''origin'',
                Println (replicate 60 CHR ''-''),
                Println (BranchDeletedSuccessfully L ''origin/feature-x''),
                Println deleteOutput],
          stderr = stderr st,
          cmds = cmds st @ [gitPushDelete ''origin'' ''feature-x'']\<rparr>, 0)"
    unfolding afterSelection_def trim
    using assms(5,6)
    by (cases st)
       (simp add: split sel confirmAndDelete_def row deleteLoop_single [OF parts] cmd
        puts_def put_def Let_def del: deleteLoop.simps(2) selectionLoop.simps)
  with sel show ?thesis by simp
qed

text \<open>
  Claim C7. Of the decorated lines of \<^verbatim>\<open>origin/main\<close> (protected) and
  \<^verbatim>\<open>origin/feature-x\<close> (merged), the first goes to the protected branches and the second
  to the branches to delete. When the selector returns the two lines, the user answers
  yes and the push succeeds, the program prints one notice for \<^verbatim>\<open>origin/main\<close>, the
  table with the one row, runs the one command \<^verbatim>\<open>git push origin --delete feature-x\<close>
  and prints one success message with the output of the command. The indicators come
  from the catalogue: they are taken to begin with \<^verbatim>\<open>(\<close> and to hold no line break.
  The lines and the command are written out byte by byte.
\<close>

theorem end_to_end:
  assumes "HasPrefix (ProtectedIndicator L) ''(''" and "HasPrefix (MergedIndicator L) ''(''"
    and "CHR 0x0A \<notin> set (ProtectedIndicator L)" and "CHR 0x0A \<notin> set (MergedIndicator L)"
    and "askOne E = Answered True"
    and "exec E (cmds st) [''git'', ''push'', ''origin'', ''--delete'', ''feature-x'']
           = (deleteOutput, None)"
  shows "selectionLoop
           [CHR 0x1B # ''[33morigin/main '' @ ProtectedIndicator L @ CHR 0x1B # ''[0m'',
            CHR 0x1B # ''[32morigin/feature-x '' @ MergedIndicator L @ CHR 0x1B # ''[0m''] [] []
         = ([''origin/feature-x''], [''origin/main''])
    \<and> afterSelection L E
         ((CHR 0x1B # ''[33morigin/main '' @ ProtectedIndicator L @ CHR 0x1B # ''[0m'') @ [CHR 0x0A]
          @ (CHR 0x1B # ''[32morigin/feature-x '' @ MergedIndicator L @ CHR 0x1B # ''[0m'') @ [CHR 0x0A]) st
       = (\<lparr>stdout = stdout st @
               [Println (ProtectedBranchSkipped L ''origin/main''),
                ConfirmHeading (ConfirmDeletion L),
                TableRow (Branch L) (Remote L),
                Println (replicate 60 CHR ''-''),
                TableRow ''feature-x'' ''origin'',
                Println (replicate 60 CHR ''-''),
                Println (BranchDeletedSuccessfully L ''origin/feature-x''),
                Println deleteOutput],
          stderr = stderr st,
          cmds = cmds st @ [[''git'', ''push'', ''origin'', ''--delete'', ''feature-x'']]\<rparr>, 0)"
proof -
  have l1: "fzfItem ColorYellow ''origin/main'' (ProtectedIndicator L)
      = CHR 0x1B # ''[33morigin/main '' @ ProtectedIndicator L @ CHR 0x1B # ''[0m''"
    by (simp add: fzfItem_def ColorYellow_def ColorReset_def esc_def)
  have l2: "fzfItem ColorGreen ''origin/feature-x'' (MergedIndicator L)
      = CHR 0x1B # ''[32morigin/feature-x '' @ MergedIndicator L @ CHR 0x1B # ''[0m''"
    by (simp add: fzfItem_def ColorGreen_def ColorReset_def esc_def)
  have push: "gitPushDelete ''origin'' ''feature-x''
      = [''git'', ''push'', ''origin'', ''--delete'', ''feature-x'']"
    by (simp add: gitPushDelete_def)
  have n: "nl = CHR 0x0A" by (simp add: nl_def)
  from assms(3,4) have 3: "nl \<notin> set (ProtectedIndicator L)" and 4: "nl \<notin> set (MergedIndicator L)"
    by (simp_all add: nl_def)
  from assms(6) have 6: "exec E (cmds st) (gitPushDelete ''origin'' ''feature-x'') = (deleteOutput, None)"
    by (simp add: gitPushDelete_def)
  note run = afterSelection_two_lines [OF assms(1,2) 3 4 assms(5) 6]
  have a: "selectionLoop
           [CHR 0x1B # ''[33morigin/main '' @ ProtectedIndicator L @ CHR 0x1B # ''[0m'',
            CHR 0x1B # ''[32morigin/feature-x '' @ MergedIndicator L @ CHR 0x1B # ''[0m''] [] []
         = ([''origin/feature-x''], [''origin/main''])"
    using run [THEN conjunct1] by (simp only: l1 l2)
  have b: "afterSelection L E
         ((CHR 0x1B # ''[33morigin/main '' @ ProtectedIndicator L @ CHR 0x1B # ''[0m'') @ [CHR 0x0A]
          @ (CHR 0x1B # ''[32morigin/feature-x '' @ MergedIndicator L @ CHR 0x1B # ''[0m'') @ [CHR 0x0A]) st
       = (\<lparr>stdout = stdout st @
               [Println (ProtectedBranchSkipped L ''origin/main''),
                ConfirmHeading (ConfirmDeletion L),
                TableRow (Branch L) (Remote L),
                Println (replicate 60 CHR ''-''),
                TableRow ''feature-x'' ''origin'',
                Println (replicate 60 CHR ''-''),
                Println (BranchDeletedSuccessfully L ''origin/feature-x''),
                Println deleteOutput],
          stderr = stderr st,
          cmds = cmds st @ [[''git'', ''push'', ''origin'', ''--delete'', ''feature-x'']]\<rparr>, 0)"
    using run [THEN conjunct2] by (simp only: l1 l2 push n)
  from a b show ?thesis by (rule conjI)
qed

theorem end_to_end_witness:
  "HasPrefix (ProtectedIndicator english) ''(''
   \<and> HasPrefix (MergedIndicator english) ''(''
   \<and> CHR 0x0A \<notin> set (ProtectedIndicator english)
   \<and> CHR 0x0A \<notin> set (MergedIndicator english)
   \<and> askOne (sampleEnv (gitStub [] ([], None) deleteOk) selectAll (Answered True)) = Answered True
   \<and> exec (sampleEnv (gitStub [] ([], None) deleteOk) selectAll (Answered True))
        (cmds initial) [''git'', ''push'', ''origin'', ''--delete'', ''feature-x''] = (''deleted'', None)
   \<and> selectionLoop
           [CHR 0x1B # ''[33morigin/main '' @ ProtectedIndicator english @ CHR 0x1B # ''[0m'',
            CHR 0x1B # ''[32morigin/feature-x '' @ MergedIndicator english @ CHR 0x1B # ''[0m''] [] []
         = ([''origin/feature-x''], [''origin/main''])
   \<and> afterSelection english (sampleEnv (gitStub [] ([], None) deleteOk) selectAll (Answered True))
         ((CHR 0x1B # ''[33morigin/main '' @ ProtectedIndicator english @ CHR 0x1B # ''[0m'') @ [CHR 0x0A]
          @ (CHR 0x1B # ''[32morigin/feature-x '' @ MergedIndicator english @ CHR 0x1B # ''[0m'') @ [CHR 0x0A])
         initial
       = (\<lparr>stdout = stdout initial @
               [Println (ProtectedBranchSkipped english ''origin/main''),
                ConfirmHeading (ConfirmDeletion english),
                TableRow (Branch english) (Remote english),
                Println (replicate 60 CHR ''-''),
                TableRow ''feature-x'' ''origin'',
                Println (replicate 60 CHR ''-''),
                Println (BranchDeletedSuccessfully english ''origin/feature-x''),
                Println ''deleted''],
          stderr = stderr initial,
          cmds = cmds initial @ [[''git'', ''push'', ''origin'', ''--delete'', ''feature-x'']]\<rparr>, 0)"
proof -
  let ?E = "sampleEnv (gitStub [] ([], None) deleteOk) selectAll (Answered True)"
  have 1: "HasPrefix (ProtectedIndicator english) ''(''" by code_simp
  have 2: "HasPrefix (MergedIndicator english) ''(''" by code_simp
  have 3: "CHR 0x0A \<notin> set (ProtectedIndicator english)" by code_simp
  have 4: "CHR 0x0A \<notin> set (MergedIndicator english)" by code_simp
  have 5: "askOne ?E = Answered True" by (simp add: sampleEnv_def)
  have 6: "exec ?E (cmds initial) [''git'', ''push'', ''origin'', ''--delete'', ''feature-x'']
      = (''deleted'', None)"
    by code_simp
  note run = end_to_end [OF 1 2 3 4 5 6]
  from 1 2 3 4 5 6 run [THEN conjunct1] run [THEN conjunct2] show ?thesis by (intro conjI)
qed

text \<open>
  Claim C8. The deletion loop runs the delete command of every branch it does not skip,
  whatever the commands before it returned. With two branches, the first delete failing
  and the second succeeding, both commands are run and the output is one failure
  message and one success message, each followed by the output of its command.
\<close>

theorem deletion_best_effort:
  "cmds (deleteLoop L E branches st) = cmds st @ map deleteCommand (deletable branches)
   \<and> (length (SplitN2 b1 ''/'') = 2 \<and> length (SplitN2 b2 ''/'') = 2
      \<and> exec E (cmds st) (deleteCommand b1) = (output1, Some err)
      \<and> exec E (cmds st @ [deleteCommand b1]) (deleteCommand b2) = (output2, None)
      \<longrightarrow> deleteLoop L E [b1, b2] st =
          \<lparr>stdout = stdout st @
             [Println (ErrorDeletingBranch L b1 err), Println output1,
              Println (BranchDeletedSuccessfully L b2), Println output2],
           stderr = stderr st,
           cmds = cmds st @ [deleteCommand b1, deleteCommand b2]\<rparr>)"
proof -
  have "deleteLoop L E [b1, b2] st =
          \<lparr>stdout = stdout st @
             [Println (ErrorDeletingBranch L b1 err), Println output1,
              Println (BranchDeletedSuccessfully L b2), Println output2],
           stderr = stderr st,
           cmds = cmds st @ [deleteCommand b1, deleteCommand b2]\<rparr>"
    if "length (SplitN2 b1 ''/'') = 2" and "length (SplitN2 b2 ''/'') = 2"
      and "exec E (cmds st) (deleteCommand b1) = (output1, Some err)"
      and "exec E (cmds st @ [deleteCommand b1]) (deleteCommand b2) = (output2, None)"
    using that(3,4)
    by (cases st)
       (simp add: deleteLoop_single [OF that(1)] deleteLoop_single [OF that(2)]
          del: deleteLoop.simps(2))
  then show ?thesis by (simp add: deleteLoop_cmds)
qed

theorem deletion_best_effort_witness:
  "length (SplitN2 ''origin/a'' ''/'') = 2 \<and> length (SplitN2 ''origin/b'' ''/'') = 2
   \<and> exec (sampleEnv (gitStub [] ([], None) deleteFirstFails) selectAll (Answered True))
        (cmds initial) (deleteCommand ''origin/a'') = (''remote rejected'', Some ''exit status 1'')
   \<and> exec (sampleEnv (gitStub [] ([], None) deleteFirstFails) selectAll (Answered True))
        (cmds initial @ [deleteCommand ''origin/a'']) (deleteCommand ''origin/b'') = (''deleted'', None)
   \<and> deleteLoop english (sampleEnv (gitStub [] ([], None) deleteFirstFails) selectAll (Answered True))
        [''origin/a'', ''origin/b''] initial =
          \<lparr>stdout =
             [Println ''error deleting origin/a: exit status 1'', Println ''remote rejected'',
              Println ''deleted origin/b'', Println ''deleted''],
           stderr = [],
           cmds = [[''git'', ''push'', ''origin'', ''--delete'', ''a''],
                   [''git'', ''push'', ''origin'', ''--delete'', ''b'']]\<rparr>"
proof -
  let ?E = "sampleEnv (gitStub [] ([], None) deleteFirstFails) selectAll (Answered True)"
  have 1: "length (SplitN2 ''origin/a'' ''/'') = 2" by code_simp
  have 2: "length (SplitN2 ''origin/b'' ''/'') = 2" by code_simp
  have 3: "exec ?E (cmds initial) (deleteCommand ''origin/a'') = (''remote rejected'', Some ''exit status 1'')"
    by code_simp
  have 4: "exec ?E (cmds initial @ [deleteCommand ''origin/a'']) (deleteCommand ''origin/b'') = (''deleted'', None)"
    by code_simp
  have 5: "deleteCommand ''origin/a'' = [''git'', ''push'', ''origin'', ''--delete'', ''a'']"
    "deleteCommand ''origin/b'' = [''git'', ''push'', ''origin'', ''--delete'', ''b'']"
    by code_simp+
  from deletion_best_effort [of english ?E "[]" initial "''origin/a''" "''origin/b''"
      "''remote rejected''" "''exit status 1''" "''deleted''"] 1 2 3 4
  have run: "deleteLoop english ?E [''origin/a'', ''origin/b''] initial =
          \<lparr>stdout = stdout initial @
             [Println (ErrorDeletingBranch english ''origin/a'' ''exit status 1''), Println ''remote rejected'',
              Println (BranchDeletedSuccessfully english ''origin/b''), Println ''deleted''],
           stderr = stderr initial,
           cmds = cmds initial @ [deleteCommand ''origin/a'', deleteCommand ''origin/b'']\<rparr>"
    by (elim conjE impE) (intro conjI)
  have final: "\<lparr>stdout = stdout initial @
             [Println (ErrorDeletingBranch english ''origin/a'' ''exit status 1''), Println ''remote rejected'',
              Println (BranchDeletedSuccessfully english ''origin/b''), Println ''deleted''],
           stderr = stderr initial,
           cmds = cmds initial @ [deleteCommand ''origin/a'', deleteCommand ''origin/b'']\<rparr>
       = \<lparr>stdout =
             [Println ''error deleting origin/a: exit status 1'', Println ''remote rejected'',
              Println ''deleted origin/b'', Println ''deleted''],
           stderr = [],
           cmds = [[''git'', ''push'', ''origin'', ''--delete'', ''a''],
                   [''git'', ''push'', ''origin'', ''--delete'', ''b'']]\<rparr>"
    by (simp add: 5 initial_def english_def)
  from 1 2 3 4 run [unfolded final] show ?thesis by (intro conjI)
qed

text \<open>
  Claim C9. When the answer to the confirmation is no (the default), the program prints
  the table and the cancellation message and exits with status 0 without starting any
  command; no run with this answer starts a \<^verbatim>\<open>git push --delete\<close>.
\<close>

theorem deletion_opt_in:
  assumes "askOne E = Answered False"
  shows "confirmAndDelete L E branchesToDelete st =
      (\<lparr>stdout = stdout st
          @ [ConfirmHeading (ConfirmDeletion L), TableRow (Branch L) (Remote L),
             Println (replicate 60 CHR ''-'')]
          @ map tableRow branchesToDelete
          @ [Println (replicate 60 CHR ''-''), Println (DeletionCancelled L)],
        stderr = stderr st, cmds = cmds st\<rparr>, 0)
    \<and> gitPushDelete remoteName branchName \<notin> set (cmds (fst (main L E)))"
proof -
  from assms have no: "askOne E \<noteq> Answered True" by simp
  show ?thesis
    using confirmAndDelete_unconfirmed [OF no, of L branchesToDelete st]
      main_no_push [OF no, of remoteName branchName L]
    by (cases st) simp
qed

theorem deletion_opt_in_witness:
  "askOne (sampleEnv (gitStub (''  origin/feature-x'' @ [nl]) ([], None) deleteOk) selectAll (Answered False))
     = Answered False
   \<and> confirmAndDelete english
       (sampleEnv (gitStub (''  origin/feature-x'' @ [nl]) ([], None) deleteOk) selectAll (Answered False))
       [''origin/feature-x''] initial =
      (\<lparr>stdout = stdout initial
          @ [ConfirmHeading (ConfirmDeletion english), TableRow (Branch english) (Remote english),
             Println (replicate 60 CHR ''-'')]
          @ map tableRow [''origin/feature-x'']
          @ [Println (replicate 60 CHR ''-''), Println (DeletionCancelled english)],
        stderr = stderr initial, cmds = cmds initial\<rparr>, 0)
   \<and> gitPushDelete ''origin'' ''feature-x'' \<notin> set (cmds (fst (main english
       (sampleEnv (gitStub (''  origin/feature-x'' @ [nl]) ([], None) deleteOk) selectAll (Answered False)))))"
proof -
  let ?E = "sampleEnv (gitStub (''  origin/feature-x'' @ [nl]) ([], None) deleteOk) selectAll (Answered False)"
  have hyp: "askOne ?E = Answered False" by (simp add: sampleEnv_def)
  from hyp deletion_opt_in [OF hyp] show ?thesis by (rule conjI)
qed

text \<open>
  Claim C10. When the prompt fails, the program does what it does on the answer no: it
  prints the table and the cancellation message and exits with status 0 without
  starting any command; no run with a failing prompt starts a \<^verbatim>\<open>git push --delete\<close>.
\<close>

theorem prompt_error_cancels:
  assumes "askOne E = PromptError err"
  shows "confirmAndDelete L E branchesToDelete st
      = confirmAndDelete L (E\<lparr>askOne := Answered False\<rparr>) branchesToDelete st
    \<and> confirmAndDelete L E branchesToDelete st =
      (\<lparr>stdout = stdout st
          @ [ConfirmHeading (ConfirmDeletion L), TableRow (Branch L) (Remote L),
             Println (replicate 60 CHR ''-'')]
          @ map tableRow branchesToDelete
          @ [Println (replicate 60 CHR ''-''), Println (DeletionCancelled L)],
        stderr = stderr st, cmds = cmds st\<rparr>, 0)
    \<and> gitPushDelete remoteName branchName \<notin> set (cmds (fst (main L E)))"
proof -
  from assms have no: "askOne E \<noteq> Answered True" by simp
  have no': "askOne (E\<lparr>askOne := Answered False\<rparr>) \<noteq> Answered True" by simp
  show ?thesis
    using confirmAndDelete_unconfirmed [OF no, of L branchesToDelete st]
      confirmAndDelete_unconfirmed [OF no', of L branchesToDelete st]
      main_no_push [OF no, of remoteName branchName L]
    by (cases st) simp
qed

theorem prompt_error_cancels_witness:
  "askOne (sampleEnv (gitStub (''  origin/feature-x'' @ [nl]) ([], None) deleteOk) selectAll
       (PromptError ''EOF'')) = PromptError ''EOF''
   \<and> confirmAndDelete english
       (sampleEnv (gitStub (''  origin/feature-x'' @ [nl]) ([], None) deleteOk) selectAll (PromptError ''EOF''))
       [''origin/feature-x''] initial =
      (\<lparr>stdout = stdout initial
          @ [ConfirmHeading (ConfirmDeletion english), TableRow (Branch english) (Remote english),
             Println (replicate 60 CHR ''-'')]
          @ map tableRow [''origin/feature-x'']
          @ [Println (replicate 60 CHR ''-''), Println (DeletionCancelled english)],
        stderr = stderr initial, cmds = cmds initial\<rparr>, 0)
   \<and> gitPushDelete ''origin'' ''feature-x'' \<notin> set (cmds (fst (main english
       (sampleEnv (gitStub (''  origin/feature-x'' @ [nl]) ([], None) deleteOk) selectAll
          (PromptError ''EOF'')))))"
proof -
  let ?E = "sampleEnv (gitStub (''  origin/feature-x'' @ [nl]) ([], None) deleteOk) selectAll (PromptError ''EOF'')"
  have hyp: "askOne ?E = PromptError ''EOF''" by (simp add: sampleEnv_def)
  from prompt_error_cancels [OF hyp, of english "[''origin/feature-x'']" initial "''origin''" "''feature-x''"]
  have "confirmAndDelete english ?E [''origin/feature-x''] initial =
      (\<lparr>stdout = stdout initial
          @ [ConfirmHeading (ConfirmDeletion english), TableRow (Branch english) (Remote english),
             Println (replicate 60 CHR ''-'')]
          @ map tableRow [''origin/feature-x'']
          @ [Println (replicate 60 CHR ''-''), Println (DeletionCancelled english)],
        stderr = stderr initial, cmds = cmds initial\<rparr>, 0)
   \<and> gitPushDelete ''origin'' ''feature-x'' \<notin> set (cmds (fst (main english ?E)))"
    by (elim conjE) (intro conjI)
  with hyp show ?thesis by (rule conjI)
qed

end
